theory Spec2Isabelle
  imports
    Complex_Main
    "HOL-Library.Char_ord"
    "HOL-Library.List_Lexorder"
    "HOL-Library.Product_Lexorder"
    "HOL-Library.Option_ord"
    "HOL-Library.Multiset"
    "HOL-Library.Word"
begin

section \<open>Errors\<close>

text \<open>
  The exceptions that the modelled functions can raise.  \<open>IntegrityError\<close> and
  \<open>OperationalError\<close> are \<^verbatim>\<open>sqlite3.IntegrityError\<close> and
  \<^verbatim>\<open>sqlite3.OperationalError\<close>; \<open>OverflowError\<close>, \<open>TypeError\<close>, \<open>ValueError\<close>
  and \<open>KeyError\<close> are the Python built-ins.
\<close>

datatype error =
  IntegrityError | OperationalError | OverflowError | TypeError | ValueError | KeyError

section \<open>Strings and bytes\<close>

text \<open>
  A Python \<^verbatim>\<open>str\<close> is modelled as a \<open>string\<close>, one \<open>char\<close> per code point (so
  code points below 256), and \<^verbatim>\<open>None\<close> as \<open>None\<close>.  Bytes are 8-bit words.
\<close>

type_synonym bytes = "8 word list"

text \<open>
  The UTF-8 encoding of a string of code points below 256: \<^verbatim>\<open>s.encode("utf-8")\<close>,
  and the bytes that SQLite holds for a TEXT value.
\<close>

definition utf8_encode :: "string \<Rightarrow> bytes" where
  "utf8_encode s =
     concat (map (\<lambda>c. let n = (of_char c :: nat)
                       in if n < 128 then [of_nat n]
                          else [of_nat (192 + n div 64), of_nat (128 + n mod 64)]) s)"

section \<open>Metrics collector (\<^verbatim>\<open>app/metrics.py\<close>)\<close>

subsection \<open>Floats\<close>

text \<open>
  A Python float is a finite binary fraction, an infinity or NaN.  Every finite float is
  a rational number, and comparisons between floats (and between a float and an int) are
  exact, so \<open>Finite r\<close> with the order of the rationals models them; the finite
  floats are a subset of the values of this type.  Addition of floats rounds; it is not
  defined here but passed to the functions that use it.
\<close>

datatype pyfloat = Finite rat | PosInf | NegInf | NaN

text \<open>\<^verbatim>\<open>a <= b\<close> on floats: false as soon as one side is NaN.\<close>

fun float_le :: "pyfloat \<Rightarrow> pyfloat \<Rightarrow> bool" where
  "float_le NaN b = False"
| "float_le a NaN = False"
| "float_le NegInf b = True"
| "float_le a PosInf = True"
| "float_le (Finite x) (Finite y) = (x \<le> y)"
| "float_le a b = False"

subsection \<open>State\<close>

text \<open>
  The fields of \<^verbatim>\<open>MetricsCollector\<close> that hold the latency histogram.
  \<^verbatim>\<open>_latency_counts\<close> is a plain dict keyed by the bucket boundary.
\<close>

record metrics =
  latency_counts :: "pyfloat \<rightharpoonup> nat"
  latency_sum :: pyfloat
  latency_count :: nat

definition latency_buckets :: "pyfloat list" where
  "latency_buckets =
     [Finite 10, Finite 25, Finite 50, Finite 100, Finite 250, Finite 500,
      Finite 1000, Finite 2500, Finite 5000, PosInf]"

definition init_metrics :: metrics where
  "init_metrics =
     \<lparr> latency_counts = map_of (map (\<lambda>b. (b, 0)) latency_buckets),
       latency_sum = Finite 0,
       latency_count = 0 \<rparr>"

subsection \<open>\<^verbatim>\<open>observe_latency\<close>\<close>

text \<open>
  \<^verbatim>\<open>self._latency_counts[bucket] += 1\<close>: reading a key that the dict does not hold
  raises \<open>KeyError\<close>.
\<close>

definition incr_count :: "pyfloat \<Rightarrow> (pyfloat \<rightharpoonup> nat) \<Rightarrow> error + (pyfloat \<rightharpoonup> nat)" where
  "incr_count b m = (case m b of None \<Rightarrow> Inl KeyError | Some n \<Rightarrow> Inr (m(b \<mapsto> n + 1)))"

text \<open>
  \<^verbatim>\<open>for bucket in self._latency_buckets: if latency_ms <= bucket: ...\<close>
\<close>

fun observe_loop :: "pyfloat \<Rightarrow> pyfloat list \<Rightarrow> (pyfloat \<rightharpoonup> nat) \<Rightarrow> error + (pyfloat \<rightharpoonup> nat)" where
  "observe_loop ms [] m = Inr m"
| "observe_loop ms (b # bs) m =
     (if float_le ms b
      then (case incr_count b m of Inl e \<Rightarrow> Inl e | Inr m' \<Rightarrow> observe_loop ms bs m')
      else observe_loop ms bs m)"

text \<open>
  \<open>fadd\<close> is Python's float addition.  The lock only serialises callers, so one call
  is one state transition.  A \<open>KeyError\<close> would leave the call after the sum and the
  count have been updated; the result then is the exception alone, since the dict holds
  every configured boundary from its construction on and the case does not arise.
\<close>

definition observe_latency :: "(pyfloat \<Rightarrow> pyfloat \<Rightarrow> pyfloat) \<Rightarrow> metrics \<Rightarrow> pyfloat \<Rightarrow> error + metrics" where
  "observe_latency fadd st latency_ms =
     (case observe_loop latency_ms latency_buckets (latency_counts st) of
        Inl e \<Rightarrow> Inl e
      | Inr m \<Rightarrow>
          Inr (st\<lparr> latency_sum := fadd (latency_sum st) latency_ms,
                   latency_count := latency_count st + 1,
                   latency_counts := m \<rparr>))"

text \<open>A sequence of observations, one call after the other, from a given state.\<close>

fun observe_all :: "(pyfloat \<Rightarrow> pyfloat \<Rightarrow> pyfloat) \<Rightarrow> metrics \<Rightarrow> pyfloat list \<Rightarrow> error + metrics" where
  "observe_all fadd st [] = Inr st"
| "observe_all fadd st (x # xs) =
     (case observe_latency fadd st x of Inl e \<Rightarrow> Inl e | Inr st' \<Rightarrow> observe_all fadd st' xs)"

text \<open>
  Addition of the exact values, for running the model on concrete observations: float
  addition agrees with it whenever the exact sum is a float.
\<close>

fun exact_add :: "pyfloat \<Rightarrow> pyfloat \<Rightarrow> pyfloat" where
  "exact_add (Finite x) (Finite y) = Finite (x + y)"
| "exact_add NaN b = NaN"
| "exact_add a NaN = NaN"
| "exact_add PosInf NegInf = NaN"
| "exact_add NegInf PosInf = NaN"
| "exact_add PosInf b = PosInf"
| "exact_add NegInf b = NegInf"
| "exact_add a b = b"

subsection \<open>\<^verbatim>\<open>export\<close>: the histogram section\<close>

text \<open>
  \<^verbatim>\<open>str(n)\<close> for a non-negative int; \<open>digit_char\<close> is only applied to numbers
  below ten.
\<close>

definition digit_char :: "nat \<Rightarrow> char" where
  "digit_char d = ''0123456789'' ! d"

fun str_nat :: "nat \<Rightarrow> string" where
  "str_nat n = (if n < 10 then [digit_char n] else str_nat (n div 10) @ [digit_char (n mod 10)])"

declare str_nat.simps [simp del]

text \<open>
  \<^verbatim>\<open>sum(self._latency_counts[b] for b in self._latency_buckets if b <= bucket)\<close>
\<close>

fun sum_counts :: "(pyfloat \<rightharpoonup> nat) \<Rightarrow> pyfloat list \<Rightarrow> error + nat" where
  "sum_counts m [] = Inr 0"
| "sum_counts m (b # bs) =
     (case m b of
        None \<Rightarrow> Inl KeyError
      | Some n \<Rightarrow> (case sum_counts m bs of Inl e \<Rightarrow> Inl e | Inr s \<Rightarrow> Inr (n + s)))"

definition cumulative :: "metrics \<Rightarrow> pyfloat \<Rightarrow> error + nat" where
  "cumulative st bucket =
     sum_counts (latency_counts st) (filter (\<lambda>b. float_le b bucket) latency_buckets)"

text \<open>
  \<^verbatim>\<open>le = "+Inf" if bucket == float("inf") else str(int(bucket))\<close>.  \<^verbatim>\<open>int\<close>
  truncates towards zero; the configured boundaries are non-negative, and \<^verbatim>\<open>int\<close>
  raises on NaN and on an infinity.
\<close>

fun le_label :: "pyfloat \<Rightarrow> error + string" where
  "le_label PosInf = Inr ''+Inf''"
| "le_label (Finite r) =
     (if 0 \<le> r then Inr (str_nat (nat \<lfloor>r\<rfloor>))
      else if nat \<lfloor>- r\<rfloor> = 0 then Inr ''0''
      else Inr (CHR ''-'' # str_nat (nat \<lfloor>- r\<rfloor>)))"
| "le_label NegInf = Inl OverflowError"
| "le_label NaN = Inl ValueError"

text \<open>
  The second loop of \<^verbatim>\<open>export\<close>; the loop before it only assigns a local variable
  that the second loop resets, so it contributes nothing.  Each bucket gives the pair of
  its label and the exported value, rendered by \<open>bucket_line\<close>.
\<close>

fun export_buckets :: "metrics \<Rightarrow> pyfloat list \<Rightarrow> error + (string \<times> nat) list" where
  "export_buckets st [] = Inr []"
| "export_buckets st (b # bs) =
     (case cumulative st b of
        Inl e \<Rightarrow> Inl e
      | Inr c \<Rightarrow>
         (case le_label b of
            Inl e \<Rightarrow> Inl e
          | Inr le \<Rightarrow>
             (case export_buckets st bs of
                Inl e \<Rightarrow> Inl e
              | Inr rest \<Rightarrow> Inr ((le, c) # rest))))"

definition bucket_line :: "string \<times> nat \<Rightarrow> string" where
  "bucket_line p =
     ''request_latency_ms_bucket{le=\"'' @ fst p @ ''\"} '' @ str_nat (snd p)"

definition count_line :: "metrics \<Rightarrow> string" where
  "count_line st = ''request_latency_ms_count '' @ str_nat (latency_count st)"

text \<open>
  The lines of the latency histogram in the exported text, without the
  \<^verbatim>\<open>request_latency_ms_sum\<close> line (a formatted float).
\<close>

definition export_histogram :: "metrics \<Rightarrow> error + string list" where
  "export_histogram st =
     (case export_buckets st latency_buckets of
        Inl e \<Rightarrow> Inl e
      | Inr ps \<Rightarrow> Inr (map bucket_line ps @ [count_line st]))"

section \<open>Message store (\<^verbatim>\<open>app/storage.py\<close>)\<close>

subsection \<open>The table\<close>

text \<open>
  SQLite compares two TEXT values with its default collation byte by byte, which on
  strings is the lexicographic order of the code points: the order \<open>\<le>\<close> on
  \<open>string\<close>.

  The table \<^verbatim>\<open>messages\<close> is the list of its rows in order of insertion.  The schema
  declares \<^verbatim>\<open>from_msisdn\<close>, \<^verbatim>\<open>to_msisdn\<close>, \<^verbatim>\<open>ts\<close> and \<^verbatim>\<open>created_at\<close> as
  \<^verbatim>\<open>NOT NULL\<close>, \<^verbatim>\<open>text\<close> as nullable and \<^verbatim>\<open>message_id\<close> as
  \<^verbatim>\<open>TEXT PRIMARY KEY\<close>; in SQLite such a key column accepts NULL, and two NULLs do not
  collide.  The database is taken as reachable with the schema created; a failure of
  the storage itself is outside the model, and so is a string beyond the length that
  SQLite accepts for a value (1,000,000,000 bytes).
\<close>

record row =
  message_id :: "string option"
  from_msisdn :: string
  to_msisdn :: string
  ts :: string
  msg_text :: "string option"
  created_at :: string

type_synonym table = "row list"

text \<open>
  \<^verbatim>\<open>INSERT INTO messages (...) VALUES (?, ?, ?, ?, ?, ?)\<close>: a NULL in a
  \<^verbatim>\<open>NOT NULL\<close> column and a key that is already stored both raise
  \<^verbatim>\<open>sqlite3.IntegrityError\<close>.
\<close>

definition sql_insert ::
  "table \<Rightarrow> string option \<Rightarrow> string option \<Rightarrow> string option \<Rightarrow> string option \<Rightarrow>
   string option \<Rightarrow> string option \<Rightarrow> error + table" where
  "sql_insert db mid sender recipient stamp body created =
     (case sender of
        None \<Rightarrow> Inl IntegrityError
      | Some f \<Rightarrow>
     (case recipient of
        None \<Rightarrow> Inl IntegrityError
      | Some t \<Rightarrow>
     (case stamp of
        None \<Rightarrow> Inl IntegrityError
      | Some s \<Rightarrow>
     (case created of
        None \<Rightarrow> Inl IntegrityError
      | Some c \<Rightarrow>
          if mid \<noteq> None \<and> mid \<in> set (map message_id db) then Inl IntegrityError
          else Inr (db @ [\<lparr> message_id = mid, from_msisdn = f, to_msisdn = t, ts = s,
                            msg_text = body, created_at = c \<rparr>])))))"

subsection \<open>\<^verbatim>\<open>insert_message\<close>\<close>

text \<open>
  \<open>now\<close> is the value of
  \<^verbatim>\<open>datetime.now(timezone.utc).isoformat().replace("+00:00", "Z")\<close>.  The result is the
  table after the call and what the call returns, \<^verbatim>\<open>(success, is_duplicate)\<close>, or
  raises.  The \<^verbatim>\<open>except\<close> clause catches \<^verbatim>\<open>sqlite3.IntegrityError\<close> only.
\<close>

definition insert_message ::
  "table \<Rightarrow> string \<Rightarrow> string option \<Rightarrow> string option \<Rightarrow> string option \<Rightarrow> string option \<Rightarrow>
   string option \<Rightarrow> table \<times> (error + bool \<times> bool)" where
  "insert_message db now mid sender recipient stamp body =
     (case sql_insert db mid sender recipient stamp body (Some now) of
        Inr db' \<Rightarrow> (db', Inr (True, False))
      | Inl IntegrityError \<Rightarrow> (db, Inr (True, True))
      | Inl e \<Rightarrow> (db, Inl e))"

subsection \<open>\<^verbatim>\<open>LIKE\<close>\<close>

text \<open>
  SQLite's \<^verbatim>\<open>LIKE\<close> with no \<^verbatim>\<open>ESCAPE\<close> clause, as its function
  \<^verbatim>\<open>patternCompare\<close> decides it: \<^verbatim>\<open>%\<close> in the pattern matches any run of
  characters, \<^verbatim>\<open>_\<close> matches any one character, and any other character matches
  itself, the letters A to Z and a to z without regard to case.
\<close>

definition ascii_lower :: "char \<Rightarrow> char" where
  "ascii_lower c =
     (case map_of (zip ''ABCDEFGHIJKLMNOPQRSTUVWXYZ'' ''abcdefghijklmnopqrstuvwxyz'') c of
        Some l \<Rightarrow> l
      | None \<Rightarrow> c)"

fun pattern_compare :: "string \<Rightarrow> string \<Rightarrow> bool" where
  "pattern_compare [] [] = True"
| "pattern_compare [] (c # cs) = False"
| "pattern_compare (p # ps) [] = (p = CHR ''%'' \<and> pattern_compare ps [])"
| "pattern_compare (p # ps) (c # cs) =
     (if p = CHR ''%'' then pattern_compare ps (c # cs) \<or> pattern_compare (p # ps) cs
      else (p = CHR ''_'' \<or> ascii_lower p = ascii_lower c) \<and> pattern_compare ps cs)"

text \<open>
  \<^verbatim>\<open>patternCompare\<close> reads the pattern and the text as C strings: each ends at its
  first NUL character, whatever follows.
\<close>

definition c_string :: "string \<Rightarrow> string" where
  "c_string s = takeWhile (\<lambda>c. c \<noteq> CHR 0x00) s"

definition sql_like :: "string \<Rightarrow> string \<Rightarrow> bool" where
  "sql_like pat t = pattern_compare (c_string pat) (c_string t)"

text \<open>
  The SQL function behind \<^verbatim>\<open>text LIKE ?\<close>, called with the pattern and the text of
  a row.  It first refuses a pattern of more than 50,000 bytes with the error
  \<^verbatim>\<open>LIKE or GLOB pattern too complex\<close>, which reaches Python as
  \<^verbatim>\<open>sqlite3.OperationalError\<close>; on a NULL text the result is NULL, which a
  \<^verbatim>\<open>WHERE\<close> clause does not accept.
\<close>

definition like_function :: "string \<Rightarrow> string option \<Rightarrow> error + bool" where
  "like_function pat txt =
     (if length (utf8_encode pat) > 50000 then Inl OperationalError
      else Inr (case txt of None \<Rightarrow> False | Some t \<Rightarrow> sql_like pat t))"

subsection \<open>\<^verbatim>\<open>get_messages\<close>\<close>

text \<open>
  The conditions of the \<^verbatim>\<open>WHERE\<close> clause, in the order in which the code appends
  them.  \<^verbatim>\<open>if from_filter:\<close> is false for \<^verbatim>\<open>None\<close> and for the empty string.
  The parameter of the \<^verbatim>\<open>LIKE\<close> is \<^verbatim>\<open>f"%{q}%"\<close>.
\<close>

definition where_conditions ::
  "string option \<Rightarrow> string option \<Rightarrow> string option \<Rightarrow> (row \<Rightarrow> error + bool) list" where
  "where_conditions from_filter since q =
     (case from_filter of
        None \<Rightarrow> []
      | Some f \<Rightarrow> if f \<noteq> [] then [\<lambda>r. Inr (from_msisdn r = f)] else [])
     @ (case since of
          None \<Rightarrow> []
        | Some s \<Rightarrow> if s \<noteq> [] then [\<lambda>r. Inr (ts r \<ge> s)] else [])
     @ (case q of
          None \<Rightarrow> []
        | Some p \<Rightarrow>
            if p \<noteq> [] then [\<lambda>r. like_function (''%'' @ p @ ''%'') (msg_text r)] else [])"

text \<open>
  The conditions are joined by \<^verbatim>\<open>AND\<close> (\<^verbatim>\<open>" AND ".join(conditions)\<close>).  SQLite
  tests them on a row one after the other and leaves the row at the first one that
  fails, so the \<^verbatim>\<open>LIKE\<close> is only computed for a row that passes the conditions
  before it.
\<close>

fun row_passes :: "(row \<Rightarrow> error + bool) list \<Rightarrow> row \<Rightarrow> error + bool" where
  "row_passes [] r = Inr True"
| "row_passes (c # cs) r =
     (case c r of
        Inl e \<Rightarrow> Inl e
      | Inr b \<Rightarrow> if b then row_passes cs r else Inr False)"

text \<open>The rows that pass; an error on any row ends the query.\<close>

fun sql_where :: "(row \<Rightarrow> error + bool) list \<Rightarrow> table \<Rightarrow> error + row list" where
  "sql_where conds [] = Inr []"
| "sql_where conds (r # rs) =
     (case row_passes conds r of
        Inl e \<Rightarrow> Inl e
      | Inr b \<Rightarrow>
         (case sql_where conds rs of
            Inl e \<Rightarrow> Inl e
          | Inr ms \<Rightarrow> Inr (if b then r # ms else ms)))"

text \<open>
  \<^verbatim>\<open>LIMIT ? OFFSET ?\<close>: a negative limit means no limit, a negative offset means no
  offset.
\<close>

definition sql_limit :: "int \<Rightarrow> int \<Rightarrow> 'a list \<Rightarrow> 'a list" where
  "sql_limit limit offset xs =
     (let ys = drop (nat offset) xs in if limit < 0 then ys else take (nat limit) ys)"

text \<open>
  A Python int is bound to a query parameter as a signed 64-bit SQLite INTEGER; the
  \<^verbatim>\<open>sqlite3\<close> module raises \<open>OverflowError\<close> for an int that does not fit.
\<close>

definition fits_int64 :: "int \<Rightarrow> bool" where
  "fits_int64 n = (- (2 ^ 63) \<le> n \<and> n < 2 ^ 63)"

text \<open>The dict that \<^verbatim>\<open>get_messages\<close> builds from a row.\<close>

record item =
  item_message_id :: "string option"
  item_from :: string
  item_to :: string
  item_ts :: string
  item_text :: "string option"

definition item_of_row :: "row \<Rightarrow> item" where
  "item_of_row r =
     \<lparr> item_message_id = message_id r, item_from = from_msisdn r, item_to = to_msisdn r,
       item_ts = ts r, item_text = msg_text r \<rparr>"

text \<open>
  The count query binds the filter parameters only and runs first.  The second query
  binds the limit and the offset too; it has the same \<^verbatim>\<open>WHERE\<close> clause over the
  same table, so it selects among the rows that the first query counted.
  \<^verbatim>\<open>ORDER BY ts ASC, message_id ASC\<close> sorts by the pair, NULL first.
\<close>

definition get_messages ::
  "table \<Rightarrow> int \<Rightarrow> int \<Rightarrow> string option \<Rightarrow> string option \<Rightarrow> string option \<Rightarrow>
   error + (item list \<times> nat)" where
  "get_messages db limit offset from_filter since q =
     (let conds = where_conditions from_filter since q
      in case sql_where conds db of
           Inl e \<Rightarrow> Inl e
         | Inr matching \<Rightarrow>
             let total = length matching
             in if \<not> (fits_int64 limit \<and> fits_int64 offset) then Inl OverflowError
                else
                  let rows = sql_limit limit offset
                               (sort_key (\<lambda>r. (ts r, message_id r)) matching)
                  in Inr (map item_of_row rows, total))"

subsection \<open>\<^verbatim>\<open>get_stats\<close>\<close>

record stats =
  total_messages :: nat
  senders_count :: nat
  messages_per_sender :: "(string \<times> nat) list"
  first_message_ts :: "string option"
  last_message_ts :: "string option"

text \<open>
  \<^verbatim>\<open>SELECT from_msisdn, COUNT(*) ... GROUP BY from_msisdn\<close>: one pair for each sender
  that occurs, with the number of its rows.  SQL leaves the order of groups with equal
  counts open; here the groups are taken in ascending order of the sender and sorted by
  descending count with a stable sort.
\<close>

definition group_counts :: "table \<Rightarrow> (string \<times> nat) list" where
  "group_counts db =
     map (\<lambda>s. (s, length (filter (\<lambda>r. from_msisdn r = s) db)))
       (sort (remdups (map from_msisdn db)))"

definition top_senders :: "table \<Rightarrow> (string \<times> nat) list" where
  "top_senders db = take 10 (sort_key (\<lambda>p. - int (snd p)) (group_counts db))"

text \<open>\<^verbatim>\<open>MIN(ts)\<close> and \<^verbatim>\<open>MAX(ts)\<close>: NULL on the empty table.\<close>

definition min_ts :: "table \<Rightarrow> string option" where
  "min_ts db = (case db of [] \<Rightarrow> None | r # rs \<Rightarrow> Some (fold min (map ts rs) (ts r)))"

definition max_ts :: "table \<Rightarrow> string option" where
  "max_ts db = (case db of [] \<Rightarrow> None | r # rs \<Rightarrow> Some (fold max (map ts rs) (ts r)))"

definition get_stats :: "table \<Rightarrow> stats" where
  "get_stats db =
     \<lparr> total_messages = length db,
       senders_count = length (remdups (map from_msisdn db)),
       messages_per_sender = top_senders db,
       first_message_ts = min_ts db,
       last_message_ts = max_ts db \<rparr>"

section \<open>Signature verification (\<^verbatim>\<open>app/main.py\<close>)\<close>

text \<open>
  The header value and the secret are Python strings; a header is decoded one byte to
  one code point, so every \<open>char\<close> can occur in it.  The secret is encoded by
  \<^verbatim>\<open>secret.encode("utf-8")\<close>, which is \<open>utf8_encode\<close>.
\<close>

text \<open>\<^verbatim>\<open>hexdigest()\<close>: two lower-case hexadecimal digits for each byte of the digest.\<close>

definition hex_digit :: "nat \<Rightarrow> char" where
  "hex_digit d = ''0123456789abcdef'' ! d"

definition hex_byte :: "8 word \<Rightarrow> string" where
  "hex_byte w = [hex_digit (unat w div 16), hex_digit (unat w mod 16)]"

definition hexdigest :: "bytes \<Rightarrow> string" where
  "hexdigest d = concat (map hex_byte d)"

text \<open>
  \<^verbatim>\<open>hmac.compare_digest\<close> on two strings: it raises \<open>TypeError\<close> unless both are
  ASCII, and otherwise tells whether they are equal.
\<close>

definition is_ascii :: "string \<Rightarrow> bool" where
  "is_ascii s = list_all (\<lambda>c. (of_char c :: nat) < 128) s"

definition compare_digest :: "string \<Rightarrow> string \<Rightarrow> error + bool" where
  "compare_digest a b = (if is_ascii a \<and> is_ascii b then Inr (a = b) else Inl TypeError)"

text \<open>
  \<open>hmac_sha256 key msg\<close> is the digest computed by
  \<^verbatim>\<open>hmac.new(key, msg, hashlib.sha256)\<close>, a function of the standard library that is
  passed to the model.
\<close>

definition verify_signature ::
  "(bytes \<Rightarrow> bytes \<Rightarrow> bytes) \<Rightarrow> string \<Rightarrow> bytes \<Rightarrow> string \<Rightarrow> error + bool" where
  "verify_signature hmac_sha256 secret body signature =
     compare_digest (hexdigest (hmac_sha256 (utf8_encode secret) body)) signature"

text \<open>
  The signature check at the head of \<^verbatim>\<open>webhook\<close>: \<open>Inr False\<close> is the response
  401, \<open>Inr True\<close> lets the request through to the parsing of the payload, and an
  exception leaves the handler.  \<^verbatim>\<open>not x_signature\<close> holds for a missing header and
  for an empty one, and likewise for the secret.
\<close>

definition webhook_signature_check ::
  "(bytes \<Rightarrow> bytes \<Rightarrow> bytes) \<Rightarrow> string option \<Rightarrow> bytes \<Rightarrow> string option \<Rightarrow> error + bool" where
  "webhook_signature_check hmac_sha256 webhook_secret raw_body x_signature =
     (case x_signature of
        None \<Rightarrow> Inr False
      | Some sig \<Rightarrow>
     (case webhook_secret of
        None \<Rightarrow> Inr False
      | Some secret \<Rightarrow>
          if sig = [] \<or> secret = [] then Inr False
          else (case verify_signature hmac_sha256 secret raw_body sig of
                  Inl e \<Rightarrow> Inl e
                | Inr ok \<Rightarrow> Inr ok)))"

section \<open>The filters as the specification words them\<close>

text \<open>
  The specification describes the text filter as a case-insensitive substring match.
  \<open>substring_nocase q t\<close> follows these words, with the case folding of
  \<^verbatim>\<open>LIKE\<close>: some run of consecutive characters of \<open>t\<close> equals \<open>q\<close> up to the
  case of the letters A to Z.  It is compared with \<open>sql_like\<close> below.
\<close>

fun prefix_nocase :: "string \<Rightarrow> string \<Rightarrow> bool" where
  "prefix_nocase [] t = True"
| "prefix_nocase (p # ps) [] = False"
| "prefix_nocase (p # ps) (c # cs) = (ascii_lower p = ascii_lower c \<and> prefix_nocase ps cs)"

fun substring_nocase :: "string \<Rightarrow> string \<Rightarrow> bool" where
  "substring_nocase q [] = (q = [])"
| "substring_nocase q (c # cs) = (prefix_nocase q (c # cs) \<or> substring_nocase q cs)"

text \<open>
  A row matches the filters: it has the sender \<open>from_filter\<close> when that is given, its
  timestamp is at least \<open>since\<close> when that is given, and its text is there and is
  like \<^verbatim>\<open>%q%\<close> when \<open>q\<close> is given; a filter is given when it is neither
  \<^verbatim>\<open>None\<close> nor empty.  The listing is stated against this predicate.
\<close>

definition row_matches :: "string option \<Rightarrow> string option \<Rightarrow> string option \<Rightarrow> row \<Rightarrow> bool" where
  "row_matches from_filter since q r =
     ((case from_filter of None \<Rightarrow> True | Some f \<Rightarrow> f = [] \<or> from_msisdn r = f) \<and>
      (case since of None \<Rightarrow> True | Some s \<Rightarrow> s = [] \<or> s \<le> ts r) \<and>
      (case q of
         None \<Rightarrow> True
       | Some p \<Rightarrow>
           p = [] \<or> (case msg_text r of None \<Rightarrow> False | Some t \<Rightarrow> sql_like (''%'' @ p @ ''%'') t)))"

text \<open>
  The filters are strings that SQLite accepts as parameters of a query: a value holds
  at most 1,000,000,000 bytes.  What is stated about the outcome of a listing is stated
  for such filters.
\<close>

definition filters_bindable :: "string option \<Rightarrow> string option \<Rightarrow> string option \<Rightarrow> bool" where
  "filters_bindable from_filter since q =
     ((case from_filter of None \<Rightarrow> True | Some f \<Rightarrow> length (utf8_encode f) \<le> 1000000000) \<and>
      (case since of None \<Rightarrow> True | Some s \<Rightarrow> length (utf8_encode s) \<le> 1000000000) \<and>
      (case q of
         None \<Rightarrow> True
       | Some p \<Rightarrow> length (utf8_encode (''%'' @ p @ ''%'')) \<le> 1000000000))"

text \<open>
  The text filter is given and its pattern \<^verbatim>\<open>%q%\<close> is longer than the 50,000 bytes
  that \<^verbatim>\<open>LIKE\<close> accepts.
\<close>

definition like_too_complex :: "string option \<Rightarrow> bool" where
  "like_too_complex q =
     (case q of
        None \<Rightarrow> False
      | Some p \<Rightarrow> p \<noteq> [] \<and> length (utf8_encode (''%'' @ p @ ''%'')) > 50000)"

section \<open>Example data\<close>

text \<open>The message of the example scenario, as the row stored for it.\<close>

definition m1 :: row where
  "m1 = \<lparr> message_id = Some ''m1'', from_msisdn = ''+15550001111'', to_msisdn = ''+15550002222'',
          ts = ''2025-01-15T10:00:00Z'', msg_text = Some ''hi'', created_at = ''2025-01-15T10:00:01Z'' \<rparr>"

text \<open>A second message with the same timestamp, a smaller key and no text.\<close>

definition m0 :: row where
  "m0 = \<lparr> message_id = Some ''m0'', from_msisdn = ''+15550003333'', to_msisdn = ''+15550002222'',
          ts = ''2025-01-15T10:00:00Z'', msg_text = None, created_at = ''2025-01-15T10:00:05Z'' \<rparr>"

text \<open>Eleven messages from eleven senders.\<close>

definition msg_from :: "string \<Rightarrow> row" where
  "msg_from s = \<lparr> message_id = Some s, from_msisdn = s, to_msisdn = ''+15550002222'',
          ts = ''2025-01-15T10:00:00Z'', msg_text = None, created_at = ''2025-01-15T10:00:05Z'' \<rparr>"

definition eleven_senders :: table where
  "eleven_senders = map msg_from
     [''+100'', ''+101'', ''+102'', ''+103'', ''+104'', ''+105'', ''+106'', ''+107'', ''+108'',
      ''+109'', ''+110'']"

section \<open>Properties of the metrics collector\<close>

subsection \<open>Recording a latency\<close>

lemma distinct_latency_buckets: "distinct latency_buckets"
  by (simp add: latency_buckets_def)

lemma observe_loop_result:
  "distinct bs \<Longrightarrow> set bs \<subseteq> dom m \<Longrightarrow>
   \<exists>m'. observe_loop ms bs m = Inr m' \<and>
     (\<forall>b. m' b = (if b \<in> set bs \<and> float_le ms b then map_option Suc (m b) else m b))"
proof (induction bs arbitrary: m)
  case Nil
  then show ?case by simp
next
  case (Cons a bs)
  from Cons.prems obtain n where n: "m a = Some n" by auto
  show ?case
  proof (cases "float_le ms a")
    case True
    let ?m1 = "m(a \<mapsto> n + 1)"
    have "distinct bs" "set bs \<subseteq> dom ?m1" using Cons.prems by auto
    from Cons.IH[OF this] obtain m' where
      m': "observe_loop ms bs ?m1 = Inr m'"
      "\<forall>b. m' b = (if b \<in> set bs \<and> float_le ms b then map_option Suc (?m1 b) else ?m1 b)"
      by blast
    have "observe_loop ms (a # bs) m = Inr m'"
      using True n m'(1) by (simp add: incr_count_def)
    moreover have "\<forall>b. m' b = (if b \<in> set (a # bs) \<and> float_le ms b then map_option Suc (m b) else m b)"
      using m'(2) Cons.prems(1) True n by auto
    ultimately show ?thesis by blast
  next
    case False
    have "distinct bs" "set bs \<subseteq> dom m" using Cons.prems by auto
    from Cons.IH[OF this] obtain m' where
      m': "observe_loop ms bs m = Inr m'"
      "\<forall>b. m' b = (if b \<in> set bs \<and> float_le ms b then map_option Suc (m b) else m b)"
      by blast
    have "observe_loop ms (a # bs) m = Inr m'" using False m'(1) by simp
    moreover have "\<forall>b. m' b = (if b \<in> set (a # bs) \<and> float_le ms b then map_option Suc (m b) else m b)"
      using m'(2) False by auto
    ultimately show ?thesis by blast
  qed
qed

lemma observe_latency_result:
  assumes "set latency_buckets \<subseteq> dom (latency_counts st)"
  shows "\<exists>st'. observe_latency fadd st ms = Inr st' \<and>
     latency_sum st' = fadd (latency_sum st) ms \<and>
     latency_count st' = latency_count st + 1 \<and>
     (\<forall>b. latency_counts st' b =
        (if b \<in> set latency_buckets \<and> float_le ms b
         then map_option Suc (latency_counts st b) else latency_counts st b))"
proof -
  from observe_loop_result[OF distinct_latency_buckets assms, of ms]
  obtain m' where m': "observe_loop ms latency_buckets (latency_counts st) = Inr m'"
    "\<forall>b. m' b = (if b \<in> set latency_buckets \<and> float_le ms b
         then map_option Suc (latency_counts st b) else latency_counts st b)"
    by blast
  then show ?thesis by (simp add: observe_latency_def)
qed

lemma observe_all_result:
  "set latency_buckets \<subseteq> dom (latency_counts st) \<Longrightarrow>
   \<exists>st'. observe_all fadd st obs = Inr st' \<and>
     latency_sum st' = foldl fadd (latency_sum st) obs \<and>
     latency_count st' = latency_count st + length obs \<and>
     (\<forall>b\<in>set latency_buckets. latency_counts st' b =
        map_option (\<lambda>n. n + length (filter (\<lambda>x. float_le x b) obs)) (latency_counts st b))"
proof (induction obs arbitrary: st)
  case Nil
  then show ?case by (auto simp: option.map_ident)
next
  case (Cons x xs)
  from observe_latency_result[OF Cons.prems, of fadd x] obtain st1 where
    st1: "observe_latency fadd st x = Inr st1"
      "latency_sum st1 = fadd (latency_sum st) x"
      "latency_count st1 = latency_count st + 1"
      "\<forall>b. latency_counts st1 b =
        (if b \<in> set latency_buckets \<and> float_le x b
         then map_option Suc (latency_counts st b) else latency_counts st b)"
    by blast
  have dom1: "set latency_buckets \<subseteq> dom (latency_counts st1)"
    using Cons.prems st1(4) by (auto simp: dom_def)
  from Cons.IH[OF dom1] obtain st' where
    st': "observe_all fadd st1 xs = Inr st'"
      "latency_sum st' = foldl fadd (latency_sum st1) xs"
      "latency_count st' = latency_count st1 + length xs"
      "\<forall>b\<in>set latency_buckets. latency_counts st' b =
        map_option (\<lambda>n. n + length (filter (\<lambda>x. float_le x b) xs)) (latency_counts st1 b)"
    by blast
  have "observe_all fadd st (x # xs) = Inr st'" using st1(1) st'(1) by simp
  moreover have "latency_sum st' = foldl fadd (latency_sum st) (x # xs)"
    using st1(2) st'(2) by simp
  moreover have "latency_count st' = latency_count st + length (x # xs)"
    using st1(3) st'(3) by simp
  moreover have "\<forall>b\<in>set latency_buckets. latency_counts st' b =
        map_option (\<lambda>n. n + length (filter (\<lambda>x. float_le x b) (x # xs))) (latency_counts st b)"
  proof
    fix b assume b: "b \<in> set latency_buckets"
    then obtain n where n: "latency_counts st b = Some n" using Cons.prems by auto
    show "latency_counts st' b =
        map_option (\<lambda>n. n + length (filter (\<lambda>x. float_le x b) (x # xs))) (latency_counts st b)"
      using st'(4) b st1(4) n by simp
  qed
  ultimately show ?case by blast
qed

lemma init_counts: "b \<in> set latency_buckets \<Longrightarrow> latency_counts init_metrics b = Some 0"
  by (auto simp: init_metrics_def latency_buckets_def)

lemma init_dom: "set latency_buckets \<subseteq> dom (latency_counts init_metrics)"
  using init_counts by (auto simp: dom_def)

text \<open>
  Claim C8.  From a state whose dict of counts holds every configured boundary,
  \<open>observe_latency\<close> returns, adds the observation to the running sum (by the float
  addition), adds one to the running count, and adds one to the stored count of exactly
  the configured boundaries that the observation is less than or equal to.  Hence after
  any sequence of observations from the initial state, the stored count of each
  configured boundary is the number of observations less than or equal to it.
\<close>

theorem observe_latency_buckets:
  "(set latency_buckets \<subseteq> dom (latency_counts st) \<longrightarrow>
      (\<exists>st'. observe_latency fadd st ms = Inr st' \<and>
         latency_sum st' = fadd (latency_sum st) ms \<and>
         latency_count st' = latency_count st + 1 \<and>
         (\<forall>b. latency_counts st' b =
            (if b \<in> set latency_buckets \<and> float_le ms b
             then map_option Suc (latency_counts st b) else latency_counts st b)))) \<and>
   (\<exists>st'. observe_all fadd init_metrics obs = Inr st' \<and>
      latency_sum st' = foldl fadd (Finite 0) obs \<and>
      latency_count st' = length obs \<and>
      (\<forall>b\<in>set latency_buckets.
         latency_counts st' b = Some (length (filter (\<lambda>x. float_le x b) obs))))"
proof (intro conjI impI)
  assume "set latency_buckets \<subseteq> dom (latency_counts st)"
  then show "\<exists>st'. observe_latency fadd st ms = Inr st' \<and>
         latency_sum st' = fadd (latency_sum st) ms \<and>
         latency_count st' = latency_count st + 1 \<and>
         (\<forall>b. latency_counts st' b =
            (if b \<in> set latency_buckets \<and> float_le ms b
             then map_option Suc (latency_counts st b) else latency_counts st b))"
    by (rule observe_latency_result)
next
  from observe_all_result[OF init_dom, of fadd obs] obtain st' where
    st': "observe_all fadd init_metrics obs = Inr st'"
      "latency_sum st' = foldl fadd (latency_sum init_metrics) obs"
      "latency_count st' = latency_count init_metrics + length obs"
      "\<forall>b\<in>set latency_buckets. latency_counts st' b =
        map_option (\<lambda>n. n + length (filter (\<lambda>x. float_le x b) obs)) (latency_counts init_metrics b)"
    by blast
  have "latency_sum st' = foldl fadd (Finite 0) obs" using st'(2) by (simp add: init_metrics_def)
  moreover have "latency_count st' = length obs" using st'(3) by (simp add: init_metrics_def)
  moreover have "\<forall>b\<in>set latency_buckets.
         latency_counts st' b = Some (length (filter (\<lambda>x. float_le x b) obs))"
    using st'(4) init_counts by simp
  ultimately show "\<exists>st'. observe_all fadd init_metrics obs = Inr st' \<and>
      latency_sum st' = foldl fadd (Finite 0) obs \<and>
      latency_count st' = length obs \<and>
      (\<forall>b\<in>set latency_buckets.
         latency_counts st' b = Some (length (filter (\<lambda>x. float_le x b) obs)))"
    using st'(1) by blast
qed

theorem observe_latency_buckets_witness:
  "set latency_buckets \<subseteq> dom (latency_counts init_metrics) \<and>
   (\<exists>st'. observe_latency exact_add init_metrics (Finite 30) = Inr st' \<and>
      latency_sum st' = Finite 30 \<and> latency_count st' = 1 \<and>
      latency_counts st' (Finite 25) = Some 0 \<and> latency_counts st' (Finite 50) = Some 1) \<and>
   (\<exists>st'. observe_all exact_add init_metrics [Finite 5, Finite 30] = Inr st' \<and>
      latency_sum st' = Finite 35 \<and> latency_count st' = 2 \<and>
      latency_counts st' (Finite 25) = Some 1 \<and> latency_counts st' (Finite 50) = Some 2)"
proof -
  have d: "set latency_buckets \<subseteq> dom (latency_counts init_metrics)"
    by (rule init_dom)
  have m: "Finite 25 \<in> set latency_buckets" "Finite 50 \<in> set latency_buckets"
    by (simp_all add: latency_buckets_def)
  have c: "latency_counts init_metrics (Finite 25) = Some 0"
    "latency_counts init_metrics (Finite 50) = Some 0"
    "latency_sum init_metrics = Finite 0" "latency_count init_metrics = 0"
    by (simp_all add: init_metrics_def latency_buckets_def)
  note t = observe_latency_buckets [of init_metrics exact_add "Finite 30" "[Finite 5, Finite 30]"]
  from t d obtain s1 where s1: "observe_latency exact_add init_metrics (Finite 30) = Inr s1"
    "latency_sum s1 = exact_add (latency_sum init_metrics) (Finite 30)"
    "latency_count s1 = latency_count init_metrics + 1"
    "\<forall>b. latency_counts s1 b =
            (if b \<in> set latency_buckets \<and> float_le (Finite 30) b
             then map_option Suc (latency_counts init_metrics b) else latency_counts init_metrics b)"
    by blast
  from t obtain s2 where s2: "observe_all exact_add init_metrics [Finite 5, Finite 30] = Inr s2"
      "latency_sum s2 = foldl exact_add (Finite 0) [Finite 5, Finite 30]"
      "latency_count s2 = length [Finite 5, Finite 30]"
      "\<forall>b\<in>set latency_buckets.
         latency_counts s2 b = Some (length (filter (\<lambda>x. float_le x b) [Finite 5, Finite 30]))"
    by blast
  have "latency_sum s1 = Finite 30" "latency_count s1 = 1"
    "latency_counts s1 (Finite 25) = Some 0" "latency_counts s1 (Finite 50) = Some 1"
    using s1(2,3,4) m c by simp_all
  moreover have "latency_sum s2 = Finite 35" "latency_count s2 = 2"
    "latency_counts s2 (Finite 25) = Some 1" "latency_counts s2 (Finite 50) = Some 2"
    using s2(2,3,4) m by simp_all
  ultimately show ?thesis using d s1(1) s2(1) by simp
qed

subsection \<open>The exported histogram\<close>

lemma sum_counts_defined:
  "\<forall>b\<in>set bs. m b = Some (f b) \<Longrightarrow> sum_counts m bs = Inr (sum_list (map f bs))"
  by (induction bs) auto

lemma cumulative_observed:
  assumes "observe_all fadd init_metrics obs = Inr st"
  shows "cumulative st bucket =
     Inr (\<Sum>b\<leftarrow>filter (\<lambda>b. float_le b bucket) latency_buckets.
            length (filter (\<lambda>x. float_le x b) obs))"
proof -
  from observe_all_result[OF init_dom, of fadd obs] assms
  have "\<forall>b\<in>set latency_buckets. latency_counts st b =
        map_option (\<lambda>n. n + length (filter (\<lambda>x. float_le x b) obs)) (latency_counts init_metrics b)"
    by auto
  then have "\<forall>b\<in>set latency_buckets. latency_counts st b = Some (length (filter (\<lambda>x. float_le x b) obs))"
    using init_counts by simp
  then have "\<forall>b\<in>set (filter (\<lambda>b. float_le b bucket) latency_buckets).
      latency_counts st b = Some (length (filter (\<lambda>x. float_le x b) obs))"
    by simp
  then show ?thesis unfolding cumulative_def by (rule sum_counts_defined)
qed

text \<open>
  The value exported for a boundary is therefore a sum of counts that are cumulative
  already: an observation is counted once for every configured boundary between it and
  the exported one.
\<close>

lemma str_nat_small: "n < 10 \<Longrightarrow> str_nat n = [digit_char n]"
  by (simp add: str_nat.simps)

lemma str_nat_big: "10 \<le> n \<Longrightarrow> str_nat n = str_nat (n div 10) @ [digit_char (n mod 10)]"
  by (subst str_nat.simps) simp

lemma observe_five: "observe_latency exact_add init_metrics (Finite 5) =
   Inr \<lparr> latency_counts = map_of (map (\<lambda>b. (b, 1)) latency_buckets), latency_sum = Finite 5, latency_count = 1 \<rparr>"
  by (simp add: observe_latency_def init_metrics_def latency_buckets_def incr_count_def fun_upd_def fun_eq_iff)


lemma export_after_five: "export_histogram \<lparr> latency_counts = map_of (map (\<lambda>b. (b, 1)) latency_buckets), latency_sum = Finite 5, latency_count = 1 \<rparr> =
   Inr [''request_latency_ms_bucket{le=\"10\"} 1'',
        ''request_latency_ms_bucket{le=\"25\"} 2'',
        ''request_latency_ms_bucket{le=\"50\"} 3'',
        ''request_latency_ms_bucket{le=\"100\"} 4'',
        ''request_latency_ms_bucket{le=\"250\"} 5'',
        ''request_latency_ms_bucket{le=\"500\"} 6'',
        ''request_latency_ms_bucket{le=\"1000\"} 7'',
        ''request_latency_ms_bucket{le=\"2500\"} 8'',
        ''request_latency_ms_bucket{le=\"5000\"} 9'',
        ''request_latency_ms_bucket{le=\"+Inf\"} 10'',
        ''request_latency_ms_count 1'']"
  by (simp add: export_histogram_def cumulative_def latency_buckets_def bucket_line_def count_line_def
      str_nat_small str_nat_big digit_char_def)

text \<open>
  Claim C9.  After the single observation of 5 ms, the number of observations less than
  or equal to each boundary is 1, and \<^verbatim>\<open>request_latency_ms_count\<close> is 1; the
  exported values are 1, 2, ..., 10, the one for \<^verbatim>\<open>le="+Inf"\<close> being 10.
\<close>

theorem export_histogram_one_observation: "(case observe_latency exact_add init_metrics (Finite 5) of
     Inl e \<Rightarrow> Inl e
   | Inr st \<Rightarrow> export_histogram st) =
   Inr [''request_latency_ms_bucket{le=\"10\"} 1'',
        ''request_latency_ms_bucket{le=\"25\"} 2'',
        ''request_latency_ms_bucket{le=\"50\"} 3'',
        ''request_latency_ms_bucket{le=\"100\"} 4'',
        ''request_latency_ms_bucket{le=\"250\"} 5'',
        ''request_latency_ms_bucket{le=\"500\"} 6'',
        ''request_latency_ms_bucket{le=\"1000\"} 7'',
        ''request_latency_ms_bucket{le=\"2500\"} 8'',
        ''request_latency_ms_bucket{le=\"5000\"} 9'',
        ''request_latency_ms_bucket{le=\"+Inf\"} 10'',
        ''request_latency_ms_count 1'']"
  by (simp only: observe_five export_after_five sum.case)

section \<open>Properties of the message store\<close>

subsection \<open>Insertion\<close>




lemma sql_insert_error: "sql_insert db mid sender recipient stamp body created = Inl e \<Longrightarrow> e = IntegrityError"
  by (auto simp: sql_insert_def split: option.splits if_splits)

lemma insert_message_integrity:
  "sql_insert db mid sender recipient stamp body (Some now) = Inl IntegrityError \<Longrightarrow>
   insert_message db now mid sender recipient stamp body = (db, Inr (True, True))"
  by (simp add: insert_message_def)

lemma insert_message_stores:
  "sql_insert db mid sender recipient stamp body (Some now) = Inr db' \<Longrightarrow>
   insert_message db now mid sender recipient stamp body = (db', Inr (True, False))"
  by (simp add: insert_message_def)

lemma insert_message_never_raises:
  "\<exists>db' dup. insert_message db now mid sender recipient stamp body = (db', Inr (True, dup))"
proof (cases "sql_insert db mid sender recipient stamp body (Some now)")
  case (Inl e)
  then have "e = IntegrityError" by (rule sql_insert_error)
  with Inl have "insert_message db now mid sender recipient stamp body = (db, Inr (True, True))"
    by (simp add: insert_message_integrity)
  then show ?thesis by blast
next
  case (Inr db')
  then have "insert_message db now mid sender recipient stamp body = (db', Inr (True, False))"
    by (rule insert_message_stores)
  then show ?thesis by blast
qed





subsection \<open>Listing\<close>

text \<open>
  What \<^verbatim>\<open>get_messages\<close> does, in terms of the rows that match the filters: the
  \<^verbatim>\<open>LIKE\<close> refuses its pattern as soon as one row reaches it, then the limit and
  the offset are bound, and then the matching rows are sorted and cut to the page.
\<close>

lemma length_utf8_encode_ge: "length s \<le> length (utf8_encode s)"
  by (induction s) (simp_all add: utf8_encode_def Let_def)

lemma length_utf8_encode_le: "length (utf8_encode s) \<le> 2 * length s"
  by (induction s) (simp_all add: utf8_encode_def Let_def)

lemma row_matches_reaches:
  "row_matches from_filter since q r \<Longrightarrow> row_matches from_filter since None r"
  by (simp add: row_matches_def)

lemma row_passes_where:
  "row_passes (where_conditions from_filter since q) r =
     (if \<not> row_matches from_filter since None r then Inr False
      else if like_too_complex q then Inl OperationalError
      else Inr (row_matches from_filter since q r))"
  by (simp add: where_conditions_def row_matches_def like_too_complex_def like_function_def
      split: option.split)

lemma sql_where_result:
  "sql_where (where_conditions from_filter since q) db =
     (if like_too_complex q \<and> (\<exists>r\<in>set db. row_matches from_filter since None r)
      then Inl OperationalError
      else Inr (filter (row_matches from_filter since q) db))"
proof (induction db)
  case Nil
  show ?case by simp
next
  case (Cons r rs)
  show ?case
  proof (cases "row_matches from_filter since None r")
    case True
    then show ?thesis using Cons by (simp add: row_passes_where)
  next
    case False
    then have "\<not> row_matches from_filter since q r"
      using row_matches_reaches by blast
    with False show ?thesis using Cons by (simp add: row_passes_where)
  qed
qed

lemma get_messages_result:
  "get_messages db limit offset from_filter since q =
     (if like_too_complex q \<and> (\<exists>r\<in>set db. row_matches from_filter since None r)
      then Inl OperationalError
      else if \<not> (fits_int64 limit \<and> fits_int64 offset) then Inl OverflowError
      else Inr (map item_of_row
                  (sql_limit limit offset
                     (sort_key (\<lambda>r. (ts r, message_id r))
                        (filter (row_matches from_filter since q) db))),
                length (filter (row_matches from_filter since q) db)))"
  by (simp add: get_messages_def Let_def sql_where_result)

lemma length_sql_limit:
  "length (sql_limit limit offset xs) =
     (if limit < 0 then length xs - nat offset else min (nat limit) (length xs - nat offset))"
  by (simp add: sql_limit_def Let_def min.commute)

lemma pair_le_iff:
  fixes a c :: "'a::linorder" and b d :: "'b::linorder"
  shows "(a, b) \<le> (c, d) \<longleftrightarrow> a < c \<or> (a = c \<and> b \<le> d)"
  by (auto simp: less_eq_prod_def)

lemma sorted_rows:
  "sorted_wrt (\<lambda>a b. ts a < ts b \<or> (ts a = ts b \<and> message_id a \<le> message_id b))
     (sort_key (\<lambda>r. (ts r, message_id r)) rows)"
proof -
  have "sorted (map (\<lambda>r. (ts r, message_id r)) (sort_key (\<lambda>r. (ts r, message_id r)) rows))"
    by (rule sorted_sort_key)
  then have "sorted_wrt (\<lambda>a b. (ts a, message_id a) \<le> (ts b, message_id b))
     (sort_key (\<lambda>r. (ts r, message_id r)) rows)"
    by (simp only: sorted_map)
  then show ?thesis
    by (simp only: pair_le_iff)
qed

lemma sorted_wrt_sql_limit: "sorted_wrt P xs \<Longrightarrow> sorted_wrt P (sql_limit limit offset xs)"
  by (simp add: sql_limit_def Let_def sorted_wrt_drop sorted_wrt_take)

lemma length_like_pattern:
  "length (utf8_encode (CHR ''%'' # p @ ''%'')) = length (utf8_encode p) + 2"
  by (simp add: utf8_encode_def)

lemma like_short: "length p \<le> 24999 \<Longrightarrow> \<not> like_too_complex (Some p)"
  using length_utf8_encode_le[of p]
  by (simp add: like_too_complex_def length_like_pattern)

lemma like_long: "49999 \<le> length p \<Longrightarrow> like_too_complex (Some p)"
  using length_utf8_encode_ge[of p]
  by (auto simp: like_too_complex_def length_like_pattern)

lemma list_all_two:
  "get_messages [m1, m0] 50 0 None None None =
     Inr ([\<lparr> item_message_id = Some ''m0'', item_from = ''+15550003333'',
              item_to = ''+15550002222'', item_ts = ''2025-01-15T10:00:00Z'', item_text = None \<rparr>,
           \<lparr> item_message_id = Some ''m1'', item_from = ''+15550001111'',
              item_to = ''+15550002222'', item_ts = ''2025-01-15T10:00:00Z'',
              item_text = Some ''hi'' \<rparr>], 2)"
  by (simp add: get_messages_result like_too_complex_def fits_int64_def row_matches_def
      sql_limit_def item_of_row_def m0_def m1_def)

lemma big_limit:
  "get_messages [m1, m0] 1000 (- 5) None None None =
     Inr ([\<lparr> item_message_id = Some ''m0'', item_from = ''+15550003333'',
              item_to = ''+15550002222'', item_ts = ''2025-01-15T10:00:00Z'', item_text = None \<rparr>,
           \<lparr> item_message_id = Some ''m1'', item_from = ''+15550001111'',
              item_to = ''+15550002222'', item_ts = ''2025-01-15T10:00:00Z'',
              item_text = Some ''hi'' \<rparr>], 2)"
  by (simp add: get_messages_result like_too_complex_def fits_int64_def row_matches_def
      sql_limit_def item_of_row_def m0_def m1_def)

text \<open>
  Claim C3.  Whenever \<^verbatim>\<open>get_messages\<close> returns, whatever the table and the
  filters are, its items are in ascending order of \<^verbatim>\<open>ts\<close>, those with equal
  \<^verbatim>\<open>ts\<close> in ascending lexicographic order of \<^verbatim>\<open>message_id\<close>; and they are the
  stored rows that match the filters, each with its own five fields, put in that order
  and cut to the page by the offset and the limit.  For filters that SQLite accepts as
  parameters, it returns exactly when the limit and the offset fit in 64 bits and no row
  reaches a \<^verbatim>\<open>LIKE\<close> whose pattern is too long.  The result is a function of the
  table and the arguments.
\<close>

theorem get_messages_ordered:
  "(get_messages db limit offset from_filter since q = Inr (items, n) \<longrightarrow>
      sorted_wrt (\<lambda>a b. item_ts a < item_ts b \<or>
                    (item_ts a = item_ts b \<and> item_message_id a \<le> item_message_id b)) items \<and>
      (\<exists>rows. mset rows = mset (filter (row_matches from_filter since q) db) \<and>
         sorted_wrt (\<lambda>a b. ts a < ts b \<or> (ts a = ts b \<and> message_id a \<le> message_id b)) rows \<and>
         items = map (\<lambda>r. \<lparr> item_message_id = message_id r, item_from = from_msisdn r,
                              item_to = to_msisdn r, item_ts = ts r, item_text = msg_text r \<rparr>)
                   (if limit < 0 then drop (nat offset) rows
                    else take (nat limit) (drop (nat offset) rows)))) \<and>
   (filters_bindable from_filter since q \<longrightarrow>
      ((\<exists>its n. get_messages db limit offset from_filter since q = Inr (its, n)) \<longleftrightarrow>
         (- (2 ^ 63) \<le> limit \<and> limit < 2 ^ 63 \<and> - (2 ^ 63) \<le> offset \<and> offset < 2 ^ 63 \<and>
          \<not> (like_too_complex q \<and> (\<exists>r\<in>set db. row_matches from_filter since None r)))))"
proof (intro conjI impI)
  let ?sorted = "sort_key (\<lambda>r. (ts r, message_id r)) (filter (row_matches from_filter since q) db)"
  let ?page = "sql_limit limit offset ?sorted"
  assume r: "get_messages db limit offset from_filter since q = Inr (items, n)"
  then have items: "items = map item_of_row ?page"
    by (simp add: get_messages_result split: if_splits)
  have s: "sorted_wrt (\<lambda>a b. ts a < ts b \<or> (ts a = ts b \<and> message_id a \<le> message_id b)) ?sorted"
    by (rule sorted_rows)
  then have "sorted_wrt (\<lambda>a b. ts a < ts b \<or> (ts a = ts b \<and> message_id a \<le> message_id b)) ?page"
    by (rule sorted_wrt_sql_limit)
  then show "sorted_wrt (\<lambda>a b. item_ts a < item_ts b \<or>
                    (item_ts a = item_ts b \<and> item_message_id a \<le> item_message_id b)) items"
    unfolding items by (simp add: sorted_wrt_map item_of_row_def)
  have m: "mset ?sorted = mset (filter (row_matches from_filter since q) db)"
    by simp
  have "items = map (\<lambda>r. \<lparr> item_message_id = message_id r, item_from = from_msisdn r,
                              item_to = to_msisdn r, item_ts = ts r, item_text = msg_text r \<rparr>)
                   (if limit < 0 then drop (nat offset) ?sorted
                    else take (nat limit) (drop (nat offset) ?sorted))"
    unfolding items by (simp add: sql_limit_def Let_def item_of_row_def)
  with m s show "\<exists>rows. mset rows = mset (filter (row_matches from_filter since q) db) \<and>
         sorted_wrt (\<lambda>a b. ts a < ts b \<or> (ts a = ts b \<and> message_id a \<le> message_id b)) rows \<and>
         items = map (\<lambda>r. \<lparr> item_message_id = message_id r, item_from = from_msisdn r,
                              item_to = to_msisdn r, item_ts = ts r, item_text = msg_text r \<rparr>)
                   (if limit < 0 then drop (nat offset) rows
                    else take (nat limit) (drop (nat offset) rows))"
    by blast
next
  show "(\<exists>its n. get_messages db limit offset from_filter since q = Inr (its, n)) \<longleftrightarrow>
      (- (2 ^ 63) \<le> limit \<and> limit < 2 ^ 63 \<and> - (2 ^ 63) \<le> offset \<and> offset < 2 ^ 63 \<and>
       \<not> (like_too_complex q \<and> (\<exists>r\<in>set db. row_matches from_filter since None r)))"
    by (simp add: get_messages_result fits_int64_def)
qed

theorem get_messages_ordered_witness:
  "get_messages [m1, m0] 50 0 None None None =
     Inr ([\<lparr> item_message_id = Some ''m0'', item_from = ''+15550003333'',
              item_to = ''+15550002222'', item_ts = ''2025-01-15T10:00:00Z'', item_text = None \<rparr>,
           \<lparr> item_message_id = Some ''m1'', item_from = ''+15550001111'',
              item_to = ''+15550002222'', item_ts = ''2025-01-15T10:00:00Z'',
              item_text = Some ''hi'' \<rparr>], 2) \<and>
   sorted_wrt (\<lambda>a b. item_ts a < item_ts b \<or>
                 (item_ts a = item_ts b \<and> item_message_id a \<le> item_message_id b))
     [\<lparr> item_message_id = Some ''m0'', item_from = ''+15550003333'',
         item_to = ''+15550002222'', item_ts = ''2025-01-15T10:00:00Z'', item_text = None \<rparr>,
      \<lparr> item_message_id = Some ''m1'', item_from = ''+15550001111'',
         item_to = ''+15550002222'', item_ts = ''2025-01-15T10:00:00Z'',
         item_text = Some ''hi'' \<rparr>] \<and>
   filters_bindable None None None \<and>
   - (2 ^ 63) \<le> (50::int) \<and> (50::int) < 2 ^ 63 \<and> - (2 ^ 63) \<le> (0::int) \<and> (0::int) < 2 ^ 63 \<and>
   \<not> (like_too_complex None \<and> (\<exists>r\<in>set [m1, m0]. row_matches None None None r))"
proof -
  note t = get_messages_ordered [of "[m1, m0]" 50 0 None None None
     "[\<lparr> item_message_id = Some ''m0'', item_from = ''+15550003333'',
              item_to = ''+15550002222'', item_ts = ''2025-01-15T10:00:00Z'', item_text = None \<rparr>,
           \<lparr> item_message_id = Some ''m1'', item_from = ''+15550001111'',
              item_to = ''+15550002222'', item_ts = ''2025-01-15T10:00:00Z'',
              item_text = Some ''hi'' \<rparr>]" 2]
  have "\<not> (like_too_complex None \<and> (\<exists>r\<in>set [m1, m0]. row_matches None None None r))"
    by (simp add: like_too_complex_def)
  moreover have "filters_bindable None None None"
    by (simp add: filters_bindable_def)
  ultimately show ?thesis using t list_all_two by simp
qed

text \<open>
  Where the call returns for a limit from 1 to 100 and an offset that is not negative,
  the total is the number of rows that match the filters, whatever the limit and the
  offset are, and the number of items is 0 when the offset is at least the total, and
  the smaller of the limit and the total minus the offset otherwise.
\<close>

lemma get_messages_pagination:
  assumes "1 \<le> limit" and "limit \<le> 100" and "0 \<le> offset" and "offset < 2 ^ 63"
    and "filters_bindable from_filter since q"
    and "\<not> (like_too_complex q \<and> (\<exists>r\<in>set db. row_matches from_filter since None r))"
  shows "\<exists>items. get_messages db limit offset from_filter since q =
             Inr (items, length (filter (row_matches from_filter since q) db)) \<and>
     int (length items) =
       (let n = int (length (filter (row_matches from_filter since q) db))
        in if offset \<ge> n then 0 else min limit (n - offset))"
proof -
  have f: "fits_int64 limit" "fits_int64 offset"
    using assms by (simp_all add: fits_int64_def)
  let ?m = "filter (row_matches from_filter since q) db"
  let ?items = "map item_of_row (sql_limit limit offset (sort_key (\<lambda>r. (ts r, message_id r)) ?m))"
  have "length ?items = min (nat limit) (length ?m - nat offset)"
    using assms(1) by (simp add: length_sql_limit)
  then have "int (length ?items) =
       (let n = int (length ?m) in if offset \<ge> n then 0 else min limit (n - offset))"
    using assms(1-4) by (auto simp: Let_def min_def)
  moreover have "get_messages db limit offset from_filter since q = Inr (?items, length ?m)"
    using f assms(6) by (simp add: get_messages_result)
  ultimately show ?thesis by blast
qed

text \<open>
  Claim C4.  The offset \<^verbatim>\<open>2 ** 63\<close> is in range, since it is not negative; with
  it the call raises \<open>OverflowError\<close> and gives neither a total nor items, while with
  the offset below it the call returns the total 1 and the empty page, as the
  pagination invariant says for an offset beyond the total.
\<close>

theorem get_messages_offset_overflow:
  "get_messages [m1] 1 (2 ^ 63) None None None = Inl OverflowError \<and>
   get_messages [m1] 1 (2 ^ 63 - 1) None None None = Inr ([], 1)"
  by (simp add: get_messages_result like_too_complex_def fits_int64_def row_matches_def
      sql_limit_def)

text \<open>
  Claim C6, as stated, fails: with the limit -1 and the offset -5 the call is not
  rejected, and returns every matching row.
\<close>

theorem get_messages_unvalidated_counterexample:
  "get_messages [m1] (- 1) (- 5) None None None =
     Inr ([\<lparr> item_message_id = Some ''m1'', item_from = ''+15550001111'',
              item_to = ''+15550002222'', item_ts = ''2025-01-15T10:00:00Z'',
              item_text = Some ''hi'' \<rparr>], 1)"
  by (simp add: get_messages_result like_too_complex_def fits_int64_def row_matches_def
      sql_limit_def item_of_row_def m1_def)

text \<open>
  Claim C6, amended.  \<^verbatim>\<open>get_messages\<close> does not check the limit or the offset.
  For filters that SQLite accepts as parameters: when a row reaches a \<^verbatim>\<open>LIKE\<close>
  whose pattern is too long, it raises \<open>OperationalError\<close>, whatever the limit and
  the offset are.  Otherwise it raises \<open>OverflowError\<close> when the limit or the offset
  does not fit in a signed 64-bit integer, and for every other limit and offset, in or
  out of the ranges of the handler, it returns the number of matching rows and a page of
  them after the offset (a negative offset counting as 0): all of them for a negative
  limit, at most \<open>limit\<close> of them otherwise.
\<close>

theorem get_messages_unvalidated:
  "filters_bindable from_filter since q \<longrightarrow>
   (like_too_complex q \<and> (\<exists>r\<in>set db. row_matches from_filter since None r) \<longrightarrow>
      get_messages db limit offset from_filter since q = Inl OperationalError) \<and>
   (\<not> (like_too_complex q \<and> (\<exists>r\<in>set db. row_matches from_filter since None r)) \<and>
    \<not> (- (2 ^ 63) \<le> limit \<and> limit < 2 ^ 63 \<and> - (2 ^ 63) \<le> offset \<and> offset < 2 ^ 63) \<longrightarrow>
      get_messages db limit offset from_filter since q = Inl OverflowError) \<and>
   (\<not> (like_too_complex q \<and> (\<exists>r\<in>set db. row_matches from_filter since None r)) \<and>
    - (2 ^ 63) \<le> limit \<and> limit < 2 ^ 63 \<and> - (2 ^ 63) \<le> offset \<and> offset < 2 ^ 63 \<longrightarrow>
      (\<exists>items. get_messages db limit offset from_filter since q =
                  Inr (items, length (filter (row_matches from_filter since q) db)) \<and>
         length items =
           (let rest = length (filter (row_matches from_filter since q) db) - nat offset
            in if limit < 0 then rest else min (nat limit) rest)))"
proof (intro conjI impI)
  assume "like_too_complex q \<and> (\<exists>r\<in>set db. row_matches from_filter since None r)"
  then show "get_messages db limit offset from_filter since q = Inl OperationalError"
    by (simp add: get_messages_result)
next
  assume "\<not> (like_too_complex q \<and> (\<exists>r\<in>set db. row_matches from_filter since None r)) \<and>
    \<not> (- (2 ^ 63) \<le> limit \<and> limit < 2 ^ 63 \<and> - (2 ^ 63) \<le> offset \<and> offset < 2 ^ 63)"
  then show "get_messages db limit offset from_filter since q = Inl OverflowError"
    by (auto simp: get_messages_result fits_int64_def)
next
  assume a: "\<not> (like_too_complex q \<and> (\<exists>r\<in>set db. row_matches from_filter since None r)) \<and>
    - (2 ^ 63) \<le> limit \<and> limit < 2 ^ 63 \<and> - (2 ^ 63) \<le> offset \<and> offset < 2 ^ 63"
  let ?m = "filter (row_matches from_filter since q) db"
  let ?items = "map item_of_row (sql_limit limit offset (sort_key (\<lambda>r. (ts r, message_id r)) ?m))"
  have "get_messages db limit offset from_filter since q = Inr (?items, length ?m)"
    using a by (simp add: get_messages_result fits_int64_def)
  moreover have "length ?items =
           (let rest = length ?m - nat offset in if limit < 0 then rest else min (nat limit) rest)"
    by (simp add: length_sql_limit Let_def)
  ultimately show "\<exists>items. get_messages db limit offset from_filter since q =
                  Inr (items, length ?m) \<and>
         length items =
           (let rest = length ?m - nat offset in if limit < 0 then rest else min (nat limit) rest)"
    by blast
qed

theorem get_messages_unvalidated_witness:
  "filters_bindable None None (Some (replicate 49999 (CHR ''a''))) \<and>
   filters_bindable None None None \<and>
   like_too_complex (Some (replicate 49999 (CHR ''a''))) \<and>
   (\<exists>r\<in>set [m1]. row_matches None None None r) \<and>
   get_messages [m1] 50 0 None None (Some (replicate 49999 (CHR ''a''))) = Inl OperationalError \<and>
   \<not> (like_too_complex None \<and> (\<exists>r\<in>set [m1, m0]. row_matches None None None r)) \<and>
   \<not> (- (2 ^ 63) \<le> (1::int) \<and> (1::int) < 2 ^ 63 \<and> - (2 ^ 63) \<le> (2 ^ 63 :: int) \<and>
      (2 ^ 63 :: int) < 2 ^ 63) \<and>
   get_messages [m1, m0] 1 (2 ^ 63) None None None = Inl OverflowError \<and>
   - (2 ^ 63) \<le> (1000::int) \<and> (1000::int) < 2 ^ 63 \<and> - (2 ^ 63) \<le> (- 5 :: int) \<and>
   (- 5 :: int) < 2 ^ 63 \<and>
   get_messages [m1, m0] 1000 (- 5) None None None =
     Inr ([\<lparr> item_message_id = Some ''m0'', item_from = ''+15550003333'',
              item_to = ''+15550002222'', item_ts = ''2025-01-15T10:00:00Z'', item_text = None \<rparr>,
           \<lparr> item_message_id = Some ''m1'', item_from = ''+15550001111'',
              item_to = ''+15550002222'', item_ts = ''2025-01-15T10:00:00Z'',
              item_text = Some ''hi'' \<rparr>], 2) \<and>
   length (filter (row_matches None None None) [m1, m0]) = 2"
proof -
  have c: "like_too_complex (Some (replicate 49999 (CHR ''a'')))"
    by (rule like_long) simp
  have r: "\<exists>r\<in>set [m1]. row_matches None None None r"
    by (simp add: row_matches_def)
  have n: "\<not> (like_too_complex None \<and> (\<exists>r\<in>set [m1, m0]. row_matches None None None r))"
    by (simp add: like_too_complex_def)
  have o: "\<not> (- (2 ^ 63) \<le> (1::int) \<and> (1::int) < 2 ^ 63 \<and> - (2 ^ 63) \<le> (2 ^ 63 :: int) \<and>
      (2 ^ 63 :: int) < 2 ^ 63)"
    by simp
  have f: "- (2 ^ 63) \<le> (1000::int) \<and> (1000::int) < 2 ^ 63 \<and> - (2 ^ 63) \<le> (- 5 :: int) \<and>
      (- 5 :: int) < 2 ^ 63"
    by simp
  have b: "filters_bindable None None (Some (replicate 49999 (CHR ''a'')))"
    using length_utf8_encode_le[of "replicate 49999 (CHR ''a'')"]
    by (simp add: filters_bindable_def length_like_pattern)
  have b0: "filters_bindable None None None"
    by (simp add: filters_bindable_def)
  from get_messages_unvalidated [of None None "Some (replicate 49999 (CHR ''a''))" "[m1]" 50 0] b c r
  have 1: "get_messages [m1] 50 0 None None (Some (replicate 49999 (CHR ''a''))) = Inl OperationalError"
    by blast
  from get_messages_unvalidated [of None None None "[m1, m0]" 1 "2 ^ 63"] b0 n o
  have 2: "get_messages [m1, m0] 1 (2 ^ 63) None None None = Inl OverflowError"
    by blast
  from get_messages_unvalidated [of None None None "[m1, m0]" 1000 "- 5"] b0 n f
  obtain items where "get_messages [m1, m0] 1000 (- 5) None None None =
      Inr (items, length (filter (row_matches None None None) [m1, m0]))"
    by blast
  with big_limit have 3: "length (filter (row_matches None None None) [m1, m0]) = 2"
    by simp
  from b b0 c r n o f 1 2 3 big_limit show ?thesis by blast
qed

subsection \<open>Statistics\<close>

lemma sum_group_sizes:
  "finite S \<Longrightarrow> f ` set xs \<subseteq> S \<Longrightarrow>
   (\<Sum>s\<in>S. length (filter (\<lambda>r. f r = s) xs)) = length xs"
proof (induction xs)
  case Nil
  then show ?case by simp
next
  case (Cons x xs)
  then have x: "f x \<in> S" and xs: "f ` set xs \<subseteq> S" by auto
  have "(\<Sum>s\<in>S. length (filter (\<lambda>r. f r = s) (x # xs))) =
        (\<Sum>s\<in>S. (if f x = s then 1 else 0) + length (filter (\<lambda>r. f r = s) xs))"
    by (intro sum.cong) auto
  also have "\<dots> = (\<Sum>s\<in>S. if f x = s then 1 else 0) + (\<Sum>s\<in>S. length (filter (\<lambda>r. f r = s) xs))"
    by (simp add: sum.distrib)
  also have "(\<Sum>s\<in>S. if f x = s then 1 else (0::nat)) = 1"
    using Cons.prems(1) x by simp
  also have "(\<Sum>s\<in>S. length (filter (\<lambda>r. f r = s) xs)) = length xs"
    using Cons.IH[OF Cons.prems(1) xs] .
  finally show ?case by simp
qed

lemma group_counts_sum: "sum_list (map snd (group_counts db)) = length db"
proof -
  let ?ss = "sort (remdups (map from_msisdn db))"
  have d: "distinct ?ss" by simp
  have s: "set ?ss = from_msisdn ` set db" by simp
  have "sum_list (map snd (group_counts db)) =
        sum_list (map (\<lambda>s. length (filter (\<lambda>r. from_msisdn r = s) db)) ?ss)"
    by (simp add: group_counts_def comp_def)
  also have "\<dots> = (\<Sum>s\<in>set ?ss. length (filter (\<lambda>r. from_msisdn r = s) db))"
    using d by (rule sum_list_distinct_conv_sum_set)
  also have "\<dots> = length db"
    by (rule sum_group_sizes) (simp_all only: s finite_imageI finite_set subset_refl)
  finally show ?thesis .
qed

lemma group_counts_length: "length (group_counts db) = length (remdups (map from_msisdn db))"
  by (simp add: group_counts_def)

lemma sum_list_insort_key:
  "sum_list (map g (insort_key k x xs)) = g x + sum_list (map g (xs :: 'a list) :: nat list)"
  by (induction xs) simp_all

lemma sum_list_sort_key: "sum_list (map g (sort_key k xs)) = sum_list (map g xs :: nat list)"
  by (induction xs) (simp_all add: sum_list_insort_key)

lemma sum_list_take_le: "sum_list (take n xs) \<le> sum_list (xs :: nat list)"
proof -
  have "sum_list xs = sum_list (take n xs) + sum_list (drop n xs)"
    by (metis append_take_drop_id sum_list_append)
  then show ?thesis by simp
qed

lemma top_senders_sum_le: "sum_list (map snd (top_senders db)) \<le> length db"
proof -
  have "sum_list (map snd (top_senders db)) =
        sum_list (take 10 (map snd (sort_key (\<lambda>p. - int (snd p)) (group_counts db))))"
    by (simp add: top_senders_def take_map)
  also have "\<dots> \<le> sum_list (map snd (sort_key (\<lambda>p. - int (snd p)) (group_counts db)))"
    by (rule sum_list_take_le)
  also have "\<dots> = length db"
    by (simp only: sum_list_sort_key group_counts_sum)
  finally show ?thesis .
qed

lemma top_senders_sum_eq:
  assumes "length (remdups (map from_msisdn db)) \<le> 10"
  shows "sum_list (map snd (top_senders db)) = length db"
proof -
  have "length (sort_key (\<lambda>p. - int (snd p)) (group_counts db)) \<le> 10"
    using assms by (simp add: group_counts_length)
  then have "top_senders db = sort_key (\<lambda>p. - int (snd p)) (group_counts db)"
    by (simp add: top_senders_def)
  then show ?thesis by (simp only: sum_list_sort_key group_counts_sum)
qed

lemma top_senders_length:
  "length (top_senders db) = min 10 (length (remdups (map from_msisdn db)))"
  by (simp add: top_senders_def group_counts_length min.commute)

lemma top_senders_sorted: "sorted (rev (map snd (top_senders db)))"
proof -
  have "sorted (map (\<lambda>p. - int (snd p)) (sort_key (\<lambda>p. - int (snd p)) (group_counts db)))"
    by (rule sorted_sort_key)
  then have "sorted_wrt (\<lambda>a b. snd a \<ge> snd b) (sort_key (\<lambda>p. - int (snd p)) (group_counts db))"
    by (simp add: sorted_map)
  then have "sorted_wrt (\<lambda>a b. snd a \<ge> snd b) (top_senders db)"
    unfolding top_senders_def by (rule sorted_wrt_take)
  then have "sorted_wrt (\<lambda>a b. a \<ge> b) (map snd (top_senders db))"
    by (simp add: sorted_wrt_map)
  then show ?thesis by (simp add: sorted_wrt_rev)
qed

lemma min_max_ts:
  "db \<noteq> [] \<Longrightarrow> min_ts db = Some (Min (ts ` set db)) \<and> max_ts db = Some (Max (ts ` set db)) \<and>
     Min (ts ` set db) \<le> Max (ts ` set db)"
proof (cases db)
  case Nil
  assume "db \<noteq> []" with Nil show ?thesis by simp
next
  case (Cons r rs)
  have "fold min (map ts rs) (ts r) = Min (set (ts r # map ts rs))" by (simp only: Min.set_eq_fold)
  moreover have "fold max (map ts rs) (ts r) = Max (set (ts r # map ts rs))" by (simp only: Max.set_eq_fold)
  moreover have "set (ts r # map ts rs) = ts ` set db" using Cons by simp
  moreover have "Min (ts ` set db) \<le> ts r" "ts r \<le> Max (ts ` set db)"
    using Cons by (intro Min_le Max_ge; simp)+
  then have "Min (ts ` set db) \<le> Max (ts ` set db)" by (rule order_trans)
  ultimately show ?thesis using Cons by (simp add: min_ts_def max_ts_def)
qed

lemma eleven_groups: "group_counts eleven_senders =
   [(''+100'', 1), (''+101'', 1), (''+102'', 1), (''+103'', 1), (''+104'', 1), (''+105'', 1),
    (''+106'', 1), (''+107'', 1), (''+108'', 1), (''+109'', 1), (''+110'', 1)]"
  by (simp add: group_counts_def eleven_senders_def msg_from_def)

lemma stats_two: "get_stats [m1, m0] =
   \<lparr> total_messages = 2, senders_count = 2,
     messages_per_sender = [(''+15550001111'', 1), (''+15550003333'', 1)],
     first_message_ts = Some ''2025-01-15T10:00:00Z'',
     last_message_ts = Some ''2025-01-15T10:00:00Z'' \<rparr>"
  by (simp add: get_stats_def top_senders_def group_counts_def min_ts_def max_ts_def m0_def m1_def)

text \<open>
  Claim C5, as stated, fails for the counts: with eleven senders of one message each,
  \<^verbatim>\<open>messages_per_sender\<close> holds ten entries, whose counts sum to 10, and
  \<^verbatim>\<open>total_messages\<close> is 11.
\<close>

theorem get_stats_sum_counterexample:
  "sum_list (map snd (messages_per_sender (get_stats eleven_senders))) = 10 \<and>
   total_messages (get_stats eleven_senders) = 11"
proof -
  have "total_messages (get_stats eleven_senders) = 11"
    by (simp add: get_stats_def eleven_senders_def)
  moreover have "sum_list (map snd (messages_per_sender (get_stats eleven_senders))) = 10"
    by (simp add: get_stats_def top_senders_def eleven_groups)
  ultimately show ?thesis by simp
qed

text \<open>
  Claim C5, amended.  \<^verbatim>\<open>senders_count\<close> is the number of distinct senders;
  \<^verbatim>\<open>messages_per_sender\<close> has an entry for each sender up to ten, and its counts
  sum to at most \<^verbatim>\<open>total_messages\<close>, and to \<^verbatim>\<open>total_messages\<close> when there are
  at most ten senders; on the empty table both timestamps are \<^verbatim>\<open>None\<close>, and
  otherwise they are the least and the greatest \<^verbatim>\<open>ts\<close> in the order of strings,
  the first at most the last.
\<close>

theorem get_stats_correct:
  "total_messages (get_stats db) = length db \<and>
   senders_count (get_stats db) = card (from_msisdn ` set db) \<and>
   length (messages_per_sender (get_stats db)) = min 10 (senders_count (get_stats db)) \<and>
   sum_list (map snd (messages_per_sender (get_stats db))) \<le> total_messages (get_stats db) \<and>
   (senders_count (get_stats db) \<le> 10 \<longrightarrow>
      sum_list (map snd (messages_per_sender (get_stats db))) = total_messages (get_stats db)) \<and>
   (db = [] \<longrightarrow> first_message_ts (get_stats db) = None \<and> last_message_ts (get_stats db) = None) \<and>
   (db \<noteq> [] \<longrightarrow>
      (\<exists>a b. first_message_ts (get_stats db) = Some a \<and> last_message_ts (get_stats db) = Some b \<and>
         a = Min (ts ` set db) \<and> b = Max (ts ` set db) \<and> a \<le> b))"
proof -
  have 1: "total_messages (get_stats db) = length db" by (simp add: get_stats_def)
  have 2: "senders_count (get_stats db) = card (from_msisdn ` set db)"
    by (simp add: get_stats_def length_remdups_card_conv)
  have 3: "length (messages_per_sender (get_stats db)) = min 10 (senders_count (get_stats db))"
    by (simp add: get_stats_def top_senders_length)
  have 4: "sum_list (map snd (messages_per_sender (get_stats db))) \<le> total_messages (get_stats db)"
    by (simp add: get_stats_def top_senders_sum_le)
  have 5: "senders_count (get_stats db) \<le> 10 \<longrightarrow>
      sum_list (map snd (messages_per_sender (get_stats db))) = total_messages (get_stats db)"
    by (simp add: get_stats_def top_senders_sum_eq)
  have 6: "db = [] \<longrightarrow> first_message_ts (get_stats db) = None \<and> last_message_ts (get_stats db) = None"
    by (simp add: get_stats_def min_ts_def max_ts_def)
  have 7: "db \<noteq> [] \<longrightarrow>
      (\<exists>a b. first_message_ts (get_stats db) = Some a \<and> last_message_ts (get_stats db) = Some b \<and>
         a = Min (ts ` set db) \<and> b = Max (ts ` set db) \<and> a \<le> b)"
    using min_max_ts[of db] by (simp add: get_stats_def)
  from 1 2 3 4 5 6 7 show ?thesis by blast
qed

theorem get_stats_correct_witness:
  "senders_count (get_stats [m1, m0]) \<le> 10 \<and>
   sum_list (map snd (messages_per_sender (get_stats [m1, m0]))) = total_messages (get_stats [m1, m0]) \<and>
   [m1, m0] \<noteq> [] \<and>
   first_message_ts (get_stats [m1, m0]) = Some (Min (ts ` set [m1, m0])) \<and>
   last_message_ts (get_stats [m1, m0]) = Some (Max (ts ` set [m1, m0])) \<and>
   Min (ts ` set [m1, m0]) \<le> Max (ts ` set [m1, m0]) \<and>
   first_message_ts (get_stats []) = None \<and> last_message_ts (get_stats []) = None"
proof -
  have a: "senders_count (get_stats [m1, m0]) \<le> 10" by (simp add: stats_two)
  have b: "[m1, m0] \<noteq> []" by simp
  from get_stats_correct [of "[m1, m0]"] a b get_stats_correct [of "[]"]
  show ?thesis by auto
qed

section \<open>Properties of the signature verification\<close>

text \<open>
  The expected digest is ASCII, so the comparison depends on the received signature
  alone: the expected digest is accepted, every other ASCII string (the empty one
  included) is refused, and a string with a code point above 127 makes
  \<^verbatim>\<open>hmac.compare_digest\<close> raise.
\<close>

lemma hex_digit_ascii: "d < 16 \<Longrightarrow> (of_char (hex_digit d) :: nat) < 128"
proof -
  assume "d < 16"
  then have "hex_digit d \<in> set ''0123456789abcdef''"
    unfolding hex_digit_def by (intro nth_mem) simp
  moreover have "\<forall>c\<in>set ''0123456789abcdef''. (of_char c :: nat) < 128"
    by simp
  ultimately show ?thesis by blast
qed

lemma hex_byte_ascii: "is_ascii (hex_byte w)"
proof -
  have "unat w < 256" using unsigned_less[of w, where ?'a = nat] by simp
  then have "unat w div 16 < 16" "unat w mod 16 < 16" by simp_all
  then show ?thesis by (simp add: hex_byte_def is_ascii_def hex_digit_ascii)
qed

lemma is_ascii_append: "is_ascii (xs @ ys) \<longleftrightarrow> is_ascii xs \<and> is_ascii ys"
  by (simp add: is_ascii_def)

lemma hexdigest_ascii: "is_ascii (hexdigest d)"
  unfolding hexdigest_def
proof (induction d)
  case Nil
  show ?case by (simp add: is_ascii_def)
next
  case (Cons w ws)
  then show ?case by (simp add: is_ascii_append hex_byte_ascii)
qed

lemma length_hexdigest: "length (hexdigest d) = 2 * length d"
  by (induction d) (simp_all add: hexdigest_def hex_byte_def)

lemma verify_signature_expected:
  "verify_signature hmac_sha256 secret body (hexdigest (hmac_sha256 (utf8_encode secret) body)) = Inr True"
  by (simp add: verify_signature_def compare_digest_def hexdigest_ascii)

lemma verify_signature_other_ascii:
  "is_ascii signature \<Longrightarrow> signature \<noteq> hexdigest (hmac_sha256 (utf8_encode secret) body) \<Longrightarrow>
   verify_signature hmac_sha256 secret body signature = Inr False"
  by (auto simp: verify_signature_def compare_digest_def hexdigest_ascii)

lemma verify_signature_empty:
  "verify_signature hmac_sha256 secret body [] =
     Inr (hmac_sha256 (utf8_encode secret) body = [])"
proof -
  have e: "is_ascii []" by (simp add: is_ascii_def)
  have "hexdigest d = [] \<longleftrightarrow> d = []" for d
    using length_hexdigest[of d] by (cases d) auto
  then show ?thesis
    by (simp add: verify_signature_def compare_digest_def hexdigest_ascii e)
qed

lemma verify_signature_non_ascii:
  "\<not> is_ascii signature \<Longrightarrow> verify_signature hmac_sha256 secret body signature = Inl TypeError"
  by (simp add: verify_signature_def compare_digest_def)

lemma webhook_signature_check_missing:
  "x_signature = None \<or> x_signature = Some [] \<or> webhook_secret = None \<or> webhook_secret = Some [] \<Longrightarrow>
   webhook_signature_check hmac_sha256 webhook_secret raw_body x_signature = Inr False"
  by (auto simp: webhook_signature_check_def split: option.splits)

text \<open>
  Claim C2.  For the header value made of the single code point 233, which is not the
  digest, \<^verbatim>\<open>verify_signature\<close> raises \<open>TypeError\<close> instead of returning
  \<^verbatim>\<open>False\<close>, for every body and every digest function; the handler has no
  \<^verbatim>\<open>except\<close> around the call, so the exception leaves \<^verbatim>\<open>webhook\<close> and the
  request is not answered with 401.
\<close>

theorem verify_signature_raises:
  "verify_signature hmac_sha256 ''testsecret'' body [CHR 0xE9] = Inl TypeError \<and>
   webhook_signature_check hmac_sha256 (Some ''testsecret'') body (Some [CHR 0xE9]) = Inl TypeError"
  by (simp add: webhook_signature_check_def verify_signature_def compare_digest_def is_ascii_def)

section \<open>Properties of the filters of the message store\<close>

text \<open>
  The conditions are joined by \<^verbatim>\<open>AND\<close>, so the rows found with several filters
  are those found with each filter alone.  For a query without \<^verbatim>\<open>%\<close>,
  \<^verbatim>\<open>_\<close> and NUL, on a text without NUL, the \<^verbatim>\<open>LIKE\<close> pattern
  \<^verbatim>\<open>%q%\<close> is the substring match of the specification.  A NUL ends the pattern:
  the query made of one NUL gives the pattern \<^verbatim>\<open>%\<close>, which every text matches.
\<close>

lemma pattern_compare_percent: "pattern_compare ''%'' t"
  by (induction t) simp_all

lemma pattern_compare_literal_prefix:
  "CHR ''%'' \<notin> set p \<Longrightarrow> CHR ''_'' \<notin> set p \<Longrightarrow>
   pattern_compare (p @ ''%'') t = prefix_nocase p t"
proof (induction p t rule: prefix_nocase.induct)
  case (1 t)
  show ?case using pattern_compare_percent by simp
next
  case (2 p ps)
  then show ?case by auto
next
  case (3 p ps c cs)
  then show ?case by auto
qed

lemma pattern_compare_substring:
  assumes "CHR ''%'' \<notin> set q" and "CHR ''_'' \<notin> set q"
  shows "pattern_compare (''%'' @ q @ ''%'') t = substring_nocase q t"
proof (induction t)
  case Nil
  have "pattern_compare (q @ ''%'') [] = prefix_nocase q []"
    using assms by (rule pattern_compare_literal_prefix)
  moreover have "prefix_nocase q [] = (q = [])" by (cases q) simp_all
  ultimately show ?case by simp
next
  case (Cons c cs)
  have "pattern_compare (q @ ''%'') (c # cs) = prefix_nocase q (c # cs)"
    using assms by (rule pattern_compare_literal_prefix)
  with Cons show ?case by simp
qed

lemma c_string_no_nul: "CHR 0x00 \<notin> set s \<Longrightarrow> c_string s = s"
  by (auto simp: c_string_def takeWhile_eq_all_conv)

lemma sql_like_substring:
  assumes "CHR ''%'' \<notin> set q" and "CHR ''_'' \<notin> set q"
    and "CHR 0x00 \<notin> set q" and "CHR 0x00 \<notin> set t"
  shows "sql_like (''%'' @ q @ ''%'') t = substring_nocase q t"
proof -
  have "CHR 0x00 \<notin> set (''%'' @ q @ ''%'')" using assms(3) by simp
  then have "c_string (''%'' @ q @ ''%'') = ''%'' @ q @ ''%''" by (rule c_string_no_nul)
  moreover have "c_string t = t" using assms(4) by (rule c_string_no_nul)
  ultimately have "sql_like (''%'' @ q @ ''%'') t = pattern_compare (''%'' @ q @ ''%'') t"
    by (simp only: sql_like_def)
  then show ?thesis using pattern_compare_substring[OF assms(1,2)] by simp
qed

lemma prefix_nocase_iff:
  "prefix_nocase q t \<longleftrightarrow> (\<exists>w v. t = w @ v \<and> map ascii_lower w = map ascii_lower q)"
proof (induction q t rule: prefix_nocase.induct)
  case (1 t)
  show ?case by simp
next
  case (2 p ps)
  show ?case by simp
next
  case (3 p ps c cs)
  show ?case
  proof
    assume "prefix_nocase (p # ps) (c # cs)"
    then have e: "ascii_lower p = ascii_lower c" and "prefix_nocase ps cs" by simp_all
    with 3 obtain w v where "cs = w @ v" "map ascii_lower w = map ascii_lower ps" by blast
    with e have "c # cs = (c # w) @ v \<and> map ascii_lower (c # w) = map ascii_lower (p # ps)" by simp
    then show "\<exists>w v. c # cs = w @ v \<and> map ascii_lower w = map ascii_lower (p # ps)" by blast
  next
    assume "\<exists>w v. c # cs = w @ v \<and> map ascii_lower w = map ascii_lower (p # ps)"
    then obtain w v where wv: "c # cs = w @ v" "map ascii_lower w = map ascii_lower (p # ps)" by blast
    then obtain w' where w: "w = c # w'" by (cases w) auto
    with wv have "cs = w' @ v" "map ascii_lower w' = map ascii_lower ps" "ascii_lower c = ascii_lower p"
      by simp_all
    with 3 show "prefix_nocase (p # ps) (c # cs)" by auto
  qed
qed

lemma substring_nocase_iff:
  "substring_nocase q t \<longleftrightarrow> (\<exists>u w v. t = u @ w @ v \<and> map ascii_lower w = map ascii_lower q)"
proof (induction t)
  case Nil
  show ?case by auto
next
  case (Cons c cs)
  show ?case
  proof
    assume "substring_nocase q (c # cs)"
    then consider "prefix_nocase q (c # cs)" | "substring_nocase q cs" by auto
    then show "\<exists>u w v. c # cs = u @ w @ v \<and> map ascii_lower w = map ascii_lower q"
    proof cases
      case 1
      then obtain w v where "c # cs = w @ v" "map ascii_lower w = map ascii_lower q"
        unfolding prefix_nocase_iff by blast
      then have "c # cs = [] @ w @ v \<and> map ascii_lower w = map ascii_lower q" by simp
      then show ?thesis by blast
    next
      case 2
      with Cons obtain u w v where "cs = u @ w @ v" "map ascii_lower w = map ascii_lower q" by blast
      then have "c # cs = (c # u) @ w @ v \<and> map ascii_lower w = map ascii_lower q" by simp
      then show ?thesis by blast
    qed
  next
    assume "\<exists>u w v. c # cs = u @ w @ v \<and> map ascii_lower w = map ascii_lower q"
    then obtain u w v where uwv: "c # cs = u @ w @ v" "map ascii_lower w = map ascii_lower q" by blast
    show "substring_nocase q (c # cs)"
    proof (cases u)
      case Nil
      with uwv have "prefix_nocase q (c # cs)" unfolding prefix_nocase_iff by auto
      then show ?thesis by simp
    next
      case (Cons a u')
      with uwv have "cs = u' @ w @ v" by simp
      with uwv(2) Cons.IH have "substring_nocase q cs" by blast
      then show ?thesis by simp
    qed
  qed
qed

lemma row_matches_conjunction:
  "row_matches from_filter since q r \<longleftrightarrow>
     row_matches from_filter None None r \<and> row_matches None since None r \<and>
     row_matches None None q r"
  by (simp add: row_matches_def)

lemma matching_rows_intersection:
  "set (filter (row_matches from_filter since q) db) =
     set (filter (row_matches from_filter None None) db) \<inter>
     set (filter (row_matches None since None) db) \<inter>
     set (filter (row_matches None None q) db)"
  using row_matches_conjunction[of from_filter since q] by auto

lemma get_messages_nul_query:
  "get_messages [m1] 50 0 None None (Some [CHR 0x00]) = Inr ([item_of_row m1], 1)"
  by (simp add: get_messages_result like_too_complex_def utf8_encode_def fits_int64_def
      row_matches_def sql_like_def c_string_def sql_limit_def m1_def)

text \<open>
  Claim C7.  The query is put into the pattern as it is, so a \<^verbatim>\<open>_\<close> or a
  \<^verbatim>\<open>%\<close> in it is a wildcard: with the query \<^verbatim>\<open>_\<close> the message whose text is
  \<^verbatim>\<open>hi\<close> is returned, although its text does not contain the query.
\<close>

theorem get_messages_like_wildcard:
  "get_messages [m1] 50 0 None None (Some ''_'') = Inr ([item_of_row m1], 1) \<and>
   msg_text m1 = Some ''hi'' \<and> \<not> substring_nocase ''_'' ''hi''"
  by (simp add: get_messages_result like_too_complex_def utf8_encode_def fits_int64_def
      row_matches_def sql_like_def c_string_def sql_limit_def m1_def ascii_lower_def)

end
